theory Spec2Isabelle
  imports Main "HOL-Library.Word" "HOL-Library.Multiset"
begin

section \<open>Pointers\<close>

text \<open>
  A C pointer is either the null pointer or the address of an element of an allocated
  block (an array, or the block a \<open>malloc\<close> returned): \<open>Ptr b k\<close> is \<open>base + k\<close>
  for the block \<open>b\<close>, the offset counted in elements of the block's element type.
  Two pointers are equal exactly when both are null or both name the same block and offset.
\<close>

datatype ptr = NULL | Ptr (block: nat) (offset: nat)

section \<open>collection.h: the queue initializers\<close>

text \<open>
  \<open>struct queue\<close> and \<open>struct concurrent_queue\<close>. The fields \<open>length\<close> and \<open>size\<close> carry a
  suffix, since HOL has constants of these names. \<open>size_t\<close> values are natural numbers.
\<close>

record queue =
  start_index :: nat
  length_q :: nat
  size_q :: nat
  elements :: ptr
  max_queue_size :: nat
  element_size :: nat

datatype pthread_mutex_t = PTHREAD_MUTEX_INITIALIZER

datatype pthread_cond_t = PTHREAD_COND_INITIALIZER

record concurrent_queue =
  mutex :: pthread_mutex_t
  is_dequeueable :: pthread_cond_t
  is_enqueueable :: pthread_cond_t
  queue :: queue

text \<open>
  A macro argument is a piece of program text, here a numeral or an identifier. An
  identifier is looked up in the scope of the place where the macro is expanded; an
  identifier that is not declared there is a compile error.
\<close>

datatype cexpr = Num nat | Ident string

datatype cpp_error = Undeclared string

type_synonym scope = "string \<rightharpoonup> nat"

fun eval_cexpr :: "scope \<Rightarrow> cexpr \<Rightarrow> cpp_error + nat" where
  "eval_cexpr sc (Num v) = Inr v"
| "eval_cexpr sc (Ident x) = (case sc x of None \<Rightarrow> Inl (Undeclared x) | Some v \<Rightarrow> Inr v)"

text \<open>
  \<open>QUEUE_INITIALIZER(element_type, _max_size)\<close>. The parameters are \<open>element_type\<close>,
  given here by its \<open>sizeof\<close>, and \<open>_max_size\<close>. The body of the macro never mentions
  \<open>_max_size\<close>: the field \<open>max_queue_size\<close> is initialised from the identifier
  \<open>_max_queue_size\<close>, which is not a parameter and is read from the expansion's scope.
\<close>

definition QUEUE_INITIALIZER :: "scope \<Rightarrow> nat \<Rightarrow> cexpr \<Rightarrow> cpp_error + queue" where
  "QUEUE_INITIALIZER sc sizeof_element_type max_size =
     (case eval_cexpr sc (Ident ''_max_queue_size'') of
        Inl e \<Rightarrow> Inl e
      | Inr v \<Rightarrow>
          Inr \<lparr>start_index = 0, length_q = 0, size_q = 0, elements = NULL,
               max_queue_size = v, element_size = sizeof_element_type\<rparr>)"

text \<open>
  \<open>CQUEUE_INITIALIZER(element_type, _max_size)\<close> hands the identifier \<open>_max_queue_size\<close>,
  not its own parameter \<open>_max_size\<close>, to \<open>QUEUE_INITIALIZER\<close>.
\<close>

definition CQUEUE_INITIALIZER :: "scope \<Rightarrow> nat \<Rightarrow> cexpr \<Rightarrow> cpp_error + concurrent_queue" where
  "CQUEUE_INITIALIZER sc sizeof_element_type max_size =
     (case QUEUE_INITIALIZER sc sizeof_element_type (Ident ''_max_queue_size'') of
        Inl e \<Rightarrow> Inl e
      | Inr q \<Rightarrow>
          Inr \<lparr>mutex = PTHREAD_MUTEX_INITIALIZER, is_dequeueable = PTHREAD_COND_INITIALIZER,
               is_enqueueable = PTHREAD_COND_INITIALIZER, queue = q\<rparr>)"

section \<open>modesetting.h: traversal of the resource arrays\<close>

text \<open>
  The loop counter of the \<open>__next_*\<close> functions is an \<open>int\<close>; incrementing it at \<open>INT_MAX\<close>
  is undefined behaviour, which the model reports as an error value.
\<close>

datatype ub = SignedOverflow

definition INT_MAX :: int where
  "INT_MAX = 2147483647"

text \<open>
  The five functions \<open>__next_connector\<close>, \<open>__next_encoder\<close>, \<open>__next_crtc\<close>, \<open>__next_plane\<close>
  and \<open>__next_mode\<close> have the same body over different arrays:
  \<^verbatim>\<open>
    bool found = p == NULL;
    for (int i = 0; i < n; i++) {
        if (base + i == p) { found = true; }
        else if (found) { return base + i; }
    }
    return NULL;
  \<close>
  \<open>next_loop base n p found i\<close> is the loop from counter \<open>i\<close> on. The bound \<open>n\<close> is an
  integer: a \<open>size_t\<close> field is non-negative, an \<open>int\<close> field may be negative. In the
  comparison \<open>i < n\<close> against a \<open>size_t\<close> the counter is converted to unsigned, which keeps
  its value since it is never negative.
\<close>

function next_loop :: "nat \<Rightarrow> int \<Rightarrow> ptr \<Rightarrow> bool \<Rightarrow> int \<Rightarrow> ub + ptr" where
  "next_loop base n p found i =
     (if i < n then
        (if Ptr base (nat i) = p then
           (if i = INT_MAX then Inl SignedOverflow else next_loop base n p True (i + 1))
         else if found then Inr (Ptr base (nat i))
         else
           (if i = INT_MAX then Inl SignedOverflow else next_loop base n p found (i + 1)))
      else Inr NULL)"
  by pat_completeness auto
termination
  by (relation "measure (\<lambda>(base, n, p, found, i). nat (n - i))") auto

declare next_loop.simps [simp del]

definition next_in :: "nat \<Rightarrow> int \<Rightarrow> ptr \<Rightarrow> ub + ptr" where
  "next_in base n p = next_loop base n p (p = NULL) 0"

text \<open>
  \<open>drmModeConnector\<close> (of libdrm) with the two fields \<open>__next_mode\<close> reads, and the
  structs of modesetting.h. An array field holds the block of the array, so that
  \<open>drmdev->connectors + i\<close> is \<open>Ptr (connectors d) i\<close>. The property tables are a list of
  libdrm's \<open>drmModePropertyRes\<close>, of which the id and the name are kept.
\<close>

record drmModePropertyRes =
  prop_id :: "32 word"
  name :: string

record drmModeConnector =
  connector_id :: "32 word"
  count_modes :: int
  modes :: nat

record drm_connector =
  connector :: drmModeConnector
  props_info :: "drmModePropertyRes list"

record drmdev =
  n_connectors :: nat
  connectors :: nat
  n_encoders :: nat
  encoders :: nat
  n_crtcs :: int
  crtcs :: nat
  n_planes :: int
  planes :: nat

definition next_connector :: "drmdev \<Rightarrow> ptr \<Rightarrow> ub + ptr" where
  "next_connector d p = next_in (connectors d) (int (n_connectors d)) p"

definition next_encoder :: "drmdev \<Rightarrow> ptr \<Rightarrow> ub + ptr" where
  "next_encoder d p = next_in (encoders d) (int (n_encoders d)) p"

definition next_crtc :: "drmdev \<Rightarrow> ptr \<Rightarrow> ub + ptr" where
  "next_crtc d p = next_in (crtcs d) (n_crtcs d) p"

definition next_plane :: "drmdev \<Rightarrow> ptr \<Rightarrow> ub + ptr" where
  "next_plane d p = next_in (planes d) (n_planes d) p"

definition next_mode :: "drm_connector \<Rightarrow> ptr \<Rightarrow> ub + ptr" where
  "next_mode c p = next_in (modes (connector c)) (count_modes (connector c)) p"

text \<open>
  A pointer the loop returns lies in the array, behind the pointer it was given. This
  holds for every bound, and is what makes the \<open>for_each\<close> loops below terminate.
\<close>

lemma next_loop_result:
  "next_loop base n p found i = Inr (Ptr b j) \<Longrightarrow> 0 \<le> i \<Longrightarrow>
     b = base \<and> i \<le> int j \<and> int j < n \<and> (\<not> found \<longrightarrow> (\<exists>k. p = Ptr base k \<and> k < j))"
proof (induction base n p found i rule: next_loop.induct)
  case (1 base n p found i)
  note unf = next_loop.simps [of base n p found i]
  show ?case
  proof (cases "i < n")
    case False
    with "1.prems" unf show ?thesis by simp
  next
    case lt: True
    show ?thesis
    proof (cases "Ptr base (nat i) = p")
      case True
      with lt "1.prems" unf have ne: "i \<noteq> INT_MAX"
        and r: "next_loop base n p True (i + 1) = Inr (Ptr b j)"
        by (auto split: if_splits)
      from "1.IH"(1) [OF lt True ne r] "1.prems"(2)
      have "b = base \<and> i + 1 \<le> int j \<and> int j < n" by simp
      with True "1.prems"(2) show ?thesis by (auto intro!: exI [of _ "nat i"])
    next
      case neq: False
      show ?thesis
      proof (cases found)
        case True
        with lt neq "1.prems" unf show ?thesis by auto
      next
        case False
        with lt neq "1.prems" unf have ne: "i \<noteq> INT_MAX"
          and r: "next_loop base n p found (i + 1) = Inr (Ptr b j)"
          by (auto split: if_splits)
        from "1.IH"(2) [OF lt neq False ne r] "1.prems"(2) False show ?thesis by auto
      qed
    qed
  qed
qed

text \<open>
  The distance of a pointer from the end of an array of \<open>n\<close> elements, by which the
  \<open>for_each\<close> loops terminate: each call of a \<open>__next_*\<close> function on a pointer that is not
  \<open>NULL\<close> returns a pointer nearer to the end, or \<open>NULL\<close>.
\<close>

definition rank :: "int \<Rightarrow> ptr \<Rightarrow> nat" where
  "rank n p = (case p of NULL \<Rightarrow> 0 | Ptr b k \<Rightarrow> Suc (nat n - k))"

lemma next_in_decreases:
  assumes "p \<noteq> NULL" and "next_in base n p = Inr q"
  shows "rank n q < rank n p"
proof (cases q)
  case NULL
  with assms(1) show ?thesis by (cases p) (auto simp: rank_def)
next
  case (Ptr b j)
  with assms have "next_loop base n p False 0 = Inr (Ptr b j)" by (simp add: next_in_def)
  from next_loop_result [OF this] obtain k where "p = Ptr base k" "k < j" "int j < n" by auto
  with Ptr show ?thesis by (auto simp: rank_def)
qed

text \<open>
  The macros \<open>for_each_connector_in_drmdev\<close>, \<open>for_each_encoder_in_drmdev\<close>,
  \<open>for_each_crtc_in_drmdev\<close>, \<open>for_each_plane_in_drmdev\<close> and \<open>for_each_mode_in_connector\<close>,
  each a loop over its own \<open>__next_*\<close> function:
  \<^verbatim>\<open>for (p = __next_connector(drmdev, NULL); p != NULL; p = __next_connector(drmdev, p))\<close>.
  The value of a loop is the list of pointers its body is run with; the functions
  \<open>for_each_*_from\<close> are the loop from the loop variable \<open>p\<close> on.
\<close>

function for_each_connector_from :: "drmdev \<Rightarrow> ptr \<Rightarrow> ub + ptr list" where
  "for_each_connector_from d p =
     (if p = NULL then Inr []
      else (case next_connector d p of
              Inl e \<Rightarrow> Inl e
            | Inr q \<Rightarrow>
                (case for_each_connector_from d q of Inl e \<Rightarrow> Inl e | Inr ps \<Rightarrow> Inr (p # ps))))"
  by pat_completeness auto
termination
  by (relation "measure (\<lambda>(d, p). rank (int (n_connectors d)) p)")
    (auto simp: next_connector_def dest: next_in_decreases)

declare for_each_connector_from.simps [simp del]

definition for_each_connector_in_drmdev :: "drmdev \<Rightarrow> ub + ptr list" where
  "for_each_connector_in_drmdev d =
     (case next_connector d NULL of Inl e \<Rightarrow> Inl e | Inr p \<Rightarrow> for_each_connector_from d p)"

function for_each_encoder_from :: "drmdev \<Rightarrow> ptr \<Rightarrow> ub + ptr list" where
  "for_each_encoder_from d p =
     (if p = NULL then Inr []
      else (case next_encoder d p of
              Inl e \<Rightarrow> Inl e
            | Inr q \<Rightarrow>
                (case for_each_encoder_from d q of Inl e \<Rightarrow> Inl e | Inr ps \<Rightarrow> Inr (p # ps))))"
  by pat_completeness auto
termination
  by (relation "measure (\<lambda>(d, p). rank (int (n_encoders d)) p)")
    (auto simp: next_encoder_def dest: next_in_decreases)

declare for_each_encoder_from.simps [simp del]

definition for_each_encoder_in_drmdev :: "drmdev \<Rightarrow> ub + ptr list" where
  "for_each_encoder_in_drmdev d =
     (case next_encoder d NULL of Inl e \<Rightarrow> Inl e | Inr p \<Rightarrow> for_each_encoder_from d p)"

function for_each_crtc_from :: "drmdev \<Rightarrow> ptr \<Rightarrow> ub + ptr list" where
  "for_each_crtc_from d p =
     (if p = NULL then Inr []
      else (case next_crtc d p of
              Inl e \<Rightarrow> Inl e
            | Inr q \<Rightarrow>
                (case for_each_crtc_from d q of Inl e \<Rightarrow> Inl e | Inr ps \<Rightarrow> Inr (p # ps))))"
  by pat_completeness auto
termination
  by (relation "measure (\<lambda>(d, p). rank (n_crtcs d) p)")
    (auto simp: next_crtc_def dest: next_in_decreases)

declare for_each_crtc_from.simps [simp del]

definition for_each_crtc_in_drmdev :: "drmdev \<Rightarrow> ub + ptr list" where
  "for_each_crtc_in_drmdev d =
     (case next_crtc d NULL of Inl e \<Rightarrow> Inl e | Inr p \<Rightarrow> for_each_crtc_from d p)"

function for_each_plane_from :: "drmdev \<Rightarrow> ptr \<Rightarrow> ub + ptr list" where
  "for_each_plane_from d p =
     (if p = NULL then Inr []
      else (case next_plane d p of
              Inl e \<Rightarrow> Inl e
            | Inr q \<Rightarrow>
                (case for_each_plane_from d q of Inl e \<Rightarrow> Inl e | Inr ps \<Rightarrow> Inr (p # ps))))"
  by pat_completeness auto
termination
  by (relation "measure (\<lambda>(d, p). rank (n_planes d) p)")
    (auto simp: next_plane_def dest: next_in_decreases)

declare for_each_plane_from.simps [simp del]

definition for_each_plane_in_drmdev :: "drmdev \<Rightarrow> ub + ptr list" where
  "for_each_plane_in_drmdev d =
     (case next_plane d NULL of Inl e \<Rightarrow> Inl e | Inr p \<Rightarrow> for_each_plane_from d p)"

function for_each_mode_from :: "drm_connector \<Rightarrow> ptr \<Rightarrow> ub + ptr list" where
  "for_each_mode_from c p =
     (if p = NULL then Inr []
      else (case next_mode c p of
              Inl e \<Rightarrow> Inl e
            | Inr q \<Rightarrow>
                (case for_each_mode_from c q of Inl e \<Rightarrow> Inl e | Inr ps \<Rightarrow> Inr (p # ps))))"
  by pat_completeness auto
termination
  by (relation "measure (\<lambda>(c, p). rank (count_modes (connector c)) p)")
    (auto simp: next_mode_def dest: next_in_decreases)

declare for_each_mode_from.simps [simp del]

definition for_each_mode_in_connector :: "drm_connector \<Rightarrow> ub + ptr list" where
  "for_each_mode_in_connector c =
     (case next_mode c NULL of Inl e \<Rightarrow> Inl e | Inr p \<Rightarrow> for_each_mode_from c p)"

section \<open>flutter-pi.h and collection.h: memdup\<close>

text \<open>
  Memory is a list of blocks, each a list of bytes; block \<open>b\<close> is \<open>m ! b\<close> and
  \<open>Ptr b k\<close> is the address of its byte \<open>k\<close>. An access outside a block, and a \<open>memcpy\<close>
  between overlapping ranges, are undefined behaviour and reported as error values.
\<close>

type_synonym byte = "8 word"

type_synonym memory = "byte list list"

datatype mem_error = InvalidAccess | Overlap

definition valid_range :: "memory \<Rightarrow> ptr \<Rightarrow> nat \<Rightarrow> bool" where
  "valid_range m p n =
     (case p of NULL \<Rightarrow> False | Ptr b k \<Rightarrow> b < length m \<and> k + n \<le> length (m ! b))"

definition load :: "memory \<Rightarrow> ptr \<Rightarrow> nat \<Rightarrow> byte list" where
  "load m p n = (case p of NULL \<Rightarrow> [] | Ptr b k \<Rightarrow> take n (drop k (m ! b)))"

definition overlap :: "ptr \<Rightarrow> ptr \<Rightarrow> nat \<Rightarrow> bool" where
  "overlap p q n =
     (case p of
        NULL \<Rightarrow> False
      | Ptr b k \<Rightarrow> (case q of NULL \<Rightarrow> False | Ptr c l \<Rightarrow> b = c \<and> k < l + n \<and> l < k + n))"

text \<open>
  \<open>malloc(n)\<close>: whether the allocator has memory left is not the caller's to decide, so it
  is the argument \<open>avail\<close>. On success the result is the start of a new block of \<open>n\<close> bytes
  whose contents are indeterminate (\<open>junk\<close>); on failure it is \<open>NULL\<close>.
\<close>

definition malloc :: "bool \<Rightarrow> (nat \<Rightarrow> byte) \<Rightarrow> memory \<Rightarrow> nat \<Rightarrow> memory \<times> ptr" where
  "malloc avail junk m n =
     (if avail then (m @ [map junk [0..<n]], Ptr (length m) 0) else (m, NULL))"

text \<open>\<open>memcpy(dest, src, n)\<close> copies \<open>n\<close> bytes and returns \<open>dest\<close>.\<close>

definition memcpy :: "memory \<Rightarrow> ptr \<Rightarrow> ptr \<Rightarrow> nat \<Rightarrow> mem_error + memory \<times> ptr" where
  "memcpy m dest src n =
     (if \<not> valid_range m dest n \<or> \<not> valid_range m src n then Inl InvalidAccess
      else if overlap dest src n then Inl Overlap
      else (case dest of
              NULL \<Rightarrow> Inl InvalidAccess
            | Ptr b k \<Rightarrow>
                Inr (m[b := take k (m ! b) @ load m src n @ drop (k + n) (m ! b)], dest)))"

text \<open>\<open>memdup\<close> as flutter-pi.h defines it.\<close>

definition memdup :: "bool \<Rightarrow> (nat \<Rightarrow> byte) \<Rightarrow> memory \<Rightarrow> ptr \<Rightarrow> nat \<Rightarrow> mem_error + memory \<times> ptr" where
  "memdup avail junk m src n =
     (if src = NULL \<or> n = 0 then Inr (m, NULL)
      else
        (let (m', dest) = malloc avail junk m n in
           if dest = NULL then Inr (m', NULL)
           else memcpy m' dest src n))"

text \<open>\<open>memdup\<close> as collection.h defines it.\<close>

definition memdup_collection ::
  "bool \<Rightarrow> (nat \<Rightarrow> byte) \<Rightarrow> memory \<Rightarrow> ptr \<Rightarrow> nat \<Rightarrow> mem_error + memory \<times> ptr" where
  "memdup_collection avail junk m src n =
     (if src = NULL \<or> n = 0 then Inr (m, NULL)
      else
        (let (m', dest) = malloc avail junk m n in
           if dest = NULL then Inr (m', NULL)
           else memcpy m' dest src n))"

section \<open>flutter-pi.h: the task type\<close>

datatype device_orientation = kPortraitUp | kLandscapeLeft | kPortraitDown | kLandscapeRight

datatype flutterpi_task_type =
    kVBlankRequest
  | kVBlankReply
  | kUpdateOrientation
  | kSendPlatformMessage
  | kRespondToPlatformMessage
  | kFlutterTask
  | kRegisterExternalTexture
  | kUnregisterExternalTexture
  | kMarkExternalTextureFrameAvailable
  | kGeneric

text \<open>\<open>FlutterTask\<close> is a type of the engine's embedder header and is opaque here.\<close>

typedecl FlutterTask

text \<open>
  The anonymous union of \<open>struct flutterpi_task\<close>, one alternative per member, in the
  order of the declaration. \<open>intptr_t\<close> is a signed integer of the platform's pointer
  width, an \<open>int\<close> here; pointers to data and to functions are \<open>ptr\<close>.
\<close>

datatype task_union =
    Task (task: FlutterTask)
  | VBlank (vblank_ns: "64 word") (baton: int)
  | Orientation (orientation: device_orientation)
  | Message (channel: ptr) (responsehandle: ptr) (message_size: nat) (message: ptr)
  | Texture (texture_id: "64 word")
  | Callback (callback: ptr) (userdata: ptr)

record flutterpi_task =
  "next" :: ptr
  type :: flutterpi_task_type
  payload :: task_union
  target_time :: "64 word"

text \<open>
  The kinds of task the specification lists, in its words and order, and the enumerator
  of \<open>flutterpi_task_type\<close> each of them stands for.
\<close>

datatype spec_task_kind =
    vblank_request
  | vblank_reply
  | orientation_update
  | outgoing_platform_message
  | message_response
  | generic_callback
  | external_texture_register
  | external_texture_unregister
  | external_texture_frame_available
  | engine_deferred_work

fun spec_kind_of :: "flutterpi_task_type \<Rightarrow> spec_task_kind" where
  "spec_kind_of kVBlankRequest = vblank_request"
| "spec_kind_of kVBlankReply = vblank_reply"
| "spec_kind_of kUpdateOrientation = orientation_update"
| "spec_kind_of kSendPlatformMessage = outgoing_platform_message"
| "spec_kind_of kRespondToPlatformMessage = message_response"
| "spec_kind_of kFlutterTask = engine_deferred_work"
| "spec_kind_of kRegisterExternalTexture = external_texture_register"
| "spec_kind_of kUnregisterExternalTexture = external_texture_unregister"
| "spec_kind_of kMarkExternalTextureFrameAvailable = external_texture_frame_available"
| "spec_kind_of kGeneric = generic_callback"

section \<open>The task queue\<close>

text \<open>
  Modelled from the spec: the task queue. flutter-pi.h declares \<open>post_platform_task\<close> and
  the task type with its \<open>next\<close> link and \<open>target_time\<close>; the functions that insert and
  take tasks are not among the sources. The queue is the list of pending tasks in the
  order of their submission.
\<close>

type_synonym task_queue = "flutterpi_task list"

text \<open>
  Modelled from the spec: \<open>post(task)\<close> "appends a task"; the task carries its target
  time.
\<close>

definition post :: "task_queue \<Rightarrow> flutterpi_task \<Rightarrow> task_queue" where
  "post q t = q @ [t]"

text \<open>
  Modelled from the spec: \<open>post_delayed(task, target_time)\<close> "likewise", with the given
  target time. Waking the consumer is not part of the model.
\<close>

definition post_delayed :: "task_queue \<Rightarrow> flutterpi_task \<Rightarrow> 64 word \<Rightarrow> task_queue" where
  "post_delayed q t target = q @ [t\<lparr>target_time := target\<rparr>]"

text \<open>
  Modelled from the spec: "\<open>wait_and_take_next\<close> always returns the
  globally-earliest-target-time entry next", "earliest-first, with stable FIFO
  tie-break", found here by "a full scan at dequeue time". The scan returns the first
  entry of the least target time and the queue without it, and nothing on an empty queue.
  Target times are \<open>uint64_t\<close> and compared as unsigned numbers.
\<close>

fun take_earliest :: "task_queue \<Rightarrow> (flutterpi_task \<times> task_queue) option" where
  "take_earliest [] = None"
| "take_earliest (t # ts) =
     (case take_earliest ts of
        None \<Rightarrow> Some (t, [])
      | Some (m, rest) \<Rightarrow>
          if target_time t \<le> target_time m then Some (t, ts) else Some (m, t # rest))"

text \<open>
  Modelled from the spec: \<open>wait_and_take_next()\<close>, the consumer's operation. The clock and
  the hardware events decide when the call returns, not which task it returns; with no
  task pending the call does not return a task (\<open>None\<close>).
\<close>

definition wait_and_take_next :: "task_queue \<Rightarrow> (flutterpi_task \<times> task_queue) option" where
  "wait_and_take_next q = take_earliest q"

lemma take_earliest_shorter:
  "take_earliest q = Some (m, rest) \<Longrightarrow> length rest < length q"
  by (induction q arbitrary: m rest) (auto split: option.splits if_splits)

text \<open>
  The single consumer calling \<open>wait_and_take_next\<close> until the queue is empty: the tasks in
  the order in which the calls return them.
\<close>

function drain :: "task_queue \<Rightarrow> flutterpi_task list" where
  "drain q = (case wait_and_take_next q of None \<Rightarrow> [] | Some (t, q') \<Rightarrow> t # drain q')"
  by pat_completeness auto
termination
  by (relation "measure length") (auto simp: wait_and_take_next_def dest: take_earliest_shorter)

declare drain.simps [simp del]

text \<open>A call of a producer, the queue after it, and the task it leaves in the queue.\<close>

datatype post_call = Post flutterpi_task | PostDelayed flutterpi_task "64 word"

fun submit :: "task_queue \<Rightarrow> post_call \<Rightarrow> task_queue" where
  "submit q (Post t) = post q t"
| "submit q (PostDelayed t target) = post_delayed q t target"

fun posted :: "post_call \<Rightarrow> flutterpi_task" where
  "posted (Post t) = t"
| "posted (PostDelayed t target) = t\<lparr>target_time := target\<rparr>"

section \<open>The framebuffer cache\<close>

text \<open>
  \<open>struct drm_fb\<close> of flutter-pi.h: the buffer object a framebuffer was made from, by its
  address, and the kernel's framebuffer id.
\<close>

record drm_fb =
  bo :: ptr
  fb_id :: "32 word"

text \<open>
  A GPU buffer object (\<open>struct gbm_bo\<close>, of libgbm): its address, which is its identity,
  and the format and modifier the kernel looks at.
\<close>

record gbm_bo =
  bo_ptr :: ptr
  format :: "32 word"
  modifier :: "64 word"

datatype fb_error = FramebufferError

text \<open>
  The kernel's side: which format and modifier combinations it accepts for scan-out, the
  framebuffer objects created so far, and the id the next one gets.
\<close>

record kms =
  scanout_ok :: "32 word \<Rightarrow> 64 word \<Rightarrow> bool"
  framebuffers :: "32 word list"
  next_fb_id :: "32 word"

text \<open>
  Modelled from the spec: creating "a kernel framebuffer object from the buffer's
  format/modifier/plane layout", with \<open>FramebufferError\<close> "if the kernel rejects the
  format/modifier combination". The kernel call is libdrm's and not among the sources.
\<close>

definition add_framebuffer :: "kms \<Rightarrow> gbm_bo \<Rightarrow> kms \<times> (fb_error + 32 word)" where
  "add_framebuffer k b =
     (if scanout_ok k (format b) (modifier b)
      then (k\<lparr>framebuffers := framebuffers k @ [next_fb_id k], next_fb_id := next_fb_id k + 1\<rparr>,
            Inr (next_fb_id k))
      else (k, Inl FramebufferError))"

record fb_state =
  cache :: "ptr \<rightharpoonup> drm_fb"
  kern :: kms

text \<open>
  Modelled from the spec: \<open>get_or_create_framebuffer(buffer)\<close>, which "looks up the cache
  by buffer identity; on miss, creates a kernel framebuffer object ... and inserts it".
  flutter-pi.h declares it as \<open>drm_fb_get_from_bo\<close>; its body is not among the sources.
\<close>

definition drm_fb_get_from_bo :: "fb_state \<Rightarrow> gbm_bo \<Rightarrow> fb_state \<times> (fb_error + drm_fb)" where
  "drm_fb_get_from_bo s b =
     (case cache s (bo_ptr b) of
        Some fb \<Rightarrow> (s, Inr fb)
      | None \<Rightarrow>
          (case add_framebuffer (kern s) b of
             (k, Inl e) \<Rightarrow> (s\<lparr>kern := k\<rparr>, Inl e)
           | (k, Inr i) \<Rightarrow>
               (let fb = \<lparr>bo = bo_ptr b, fb_id = i\<rparr>
                in (s\<lparr>cache := (cache s)(bo_ptr b \<mapsto> fb), kern := k\<rparr>, Inr fb))))"

section \<open>Properties of the queue initializers\<close>

text \<open>
  Claim C10: \<open>QUEUE_INITIALIZER(T, m)\<close> is a queue with \<open>start_index\<close>, \<open>length\<close> and \<open>size\<close> 0,
  \<open>elements\<close> \<open>NULL\<close>, \<open>element_size\<close> \<open>sizeof(T)\<close> and \<open>max_queue_size\<close> equal to \<open>m\<close>, and
  likewise the inner queue of \<open>CQUEUE_INITIALIZER(T, m)\<close>. The macros do not do this: expanded
  with \<open>m = 8\<close> where a variable \<open>_max_queue_size\<close> of value 3 is in scope, the queue's
  \<open>max_queue_size\<close> is 3, and where no such variable is in scope the expansion does not
  compile. The other five fields are as the claim says.
\<close>

theorem QUEUE_INITIALIZER_ignores_max_size:
  "QUEUE_INITIALIZER [''_max_queue_size'' \<mapsto> 3] 4 (Num 8) =
     Inr \<lparr>start_index = 0, length_q = 0, size_q = 0, elements = NULL,
          max_queue_size = 3, element_size = 4\<rparr> \<and>
   QUEUE_INITIALIZER Map.empty 4 (Num 8) = Inl (Undeclared ''_max_queue_size'') \<and>
   CQUEUE_INITIALIZER [''_max_queue_size'' \<mapsto> 3] 4 (Num 8) =
     Inr \<lparr>mutex = PTHREAD_MUTEX_INITIALIZER, is_dequeueable = PTHREAD_COND_INITIALIZER,
          is_enqueueable = PTHREAD_COND_INITIALIZER,
          queue = \<lparr>start_index = 0, length_q = 0, size_q = 0, elements = NULL,
                   max_queue_size = 3, element_size = 4\<rparr>\<rparr> \<and>
   CQUEUE_INITIALIZER Map.empty 4 (Num 8) = Inl (Undeclared ''_max_queue_size'')"
  by (simp add: QUEUE_INITIALIZER_def CQUEUE_INITIALIZER_def)

section \<open>Properties of the traversal\<close>

lemma next_loop_past_end: "\<not> i < n \<Longrightarrow> next_loop base n p found i = Inr NULL"
  by (simp add: next_loop.simps [of base n p found i])

lemma next_loop_found: "i < n \<Longrightarrow> Ptr base (nat i) \<noteq> p \<Longrightarrow>
    next_loop base n p True i = Inr (Ptr base (nat i))"
  by (simp add: next_loop.simps [of base n p True i])

lemma next_loop_search:
  assumes "n \<le> INT_MAX" "0 \<le> i" "i \<le> int k" "int k < n"
  shows "next_loop base n (Ptr base k) False i =
           Inr (if int k + 1 < n then Ptr base (Suc k) else NULL)"
  using assms
proof (induction "nat (int k - i)" arbitrary: i)
  case 0
  then have i: "i = int k" by simp
  have ne: "i \<noteq> INT_MAX" using 0 by simp
  have step: "next_loop base n (Ptr base k) False i = next_loop base n (Ptr base k) True (i + 1)"
    using ne "0.prems" unfolding i by (simp add: next_loop.simps [of base n "Ptr base k" False "int k"])
  show ?case
  proof (cases "int k + 1 < n")
    case True
    then show ?thesis using step i next_loop_found [of "i + 1" n base "Ptr base k"]
      by (simp add: nat_add_distrib)
  next
    case False
    then show ?thesis using step i next_loop_past_end [of "i + 1" n] by simp
  qed
next
  case (Suc m)
  then have lt: "i < int k" by simp
  then have neq: "Ptr base (nat i) \<noteq> Ptr base k" using Suc.prems by auto
  have ne: "i \<noteq> INT_MAX" using Suc.prems lt by simp
  have "next_loop base n (Ptr base k) False i = next_loop base n (Ptr base k) False (i + 1)"
    using neq ne lt Suc.prems by (simp add: next_loop.simps [of base n "Ptr base k" False i])
  also have "\<dots> = Inr (if int k + 1 < n then Ptr base (Suc k) else NULL)"
    using Suc.hyps(1) [of "i + 1"] Suc.hyps(2) Suc.prems lt by simp
  finally show ?case .
qed

lemma next_in_NULL: "next_in base n NULL = Inr (if 0 < n then Ptr base 0 else NULL)"
  using next_loop_found [of 0 n base NULL] next_loop_past_end [of 0 n base NULL True]
  by (simp add: next_in_def)

lemma next_in_elem:
  "n \<le> INT_MAX \<Longrightarrow> int k < n \<Longrightarrow>
     next_in base n (Ptr base k) = Inr (if int k + 1 < n then Ptr base (Suc k) else NULL)"
  using next_loop_search [of n 0 k base] by (simp add: next_in_def)

text \<open>
  Every function that satisfies the equation of a \<open>for_each\<close> loop over an array visits,
  from an element on, the rest of the array in order.
\<close>

lemma traversal_from_elem:
  assumes eq: "\<And>p. F p =
      (if p = NULL then Inr []
       else (case next_in base n p of
               Inl e \<Rightarrow> Inl e
             | Inr q \<Rightarrow> (case F q of Inl e \<Rightarrow> Inl e | Inr ps \<Rightarrow> Inr (p # ps))))"
    and n: "n \<le> INT_MAX" and k: "int k < n"
  shows "F (Ptr base k) = Inr (map (Ptr base) [k..<nat n])"
  using k
proof (induction "nat n - k" arbitrary: k)
  case 0
  then show ?case by simp
next
  case (Suc m)
  have nil: "F NULL = Inr []" by (subst eq) simp
  have step: "F (Ptr base k) =
      (case next_in base n (Ptr base k) of
         Inl e \<Rightarrow> Inl e
       | Inr q \<Rightarrow> (case F q of Inl e \<Rightarrow> Inl e | Inr ps \<Rightarrow> Inr (Ptr base k # ps)))"
    by (subst eq) simp
  show ?case
  proof (cases "int k + 1 < n")
    case True
    with Suc have "F (Ptr base (Suc k)) = Inr (map (Ptr base) [Suc k..<nat n])"
      by (intro Suc.hyps(1)) auto
    moreover have "[k..<nat n] = k # [Suc k..<nat n]"
      using Suc.prems by (simp add: upt_conv_Cons)
    ultimately show ?thesis
      using True Suc.prems n next_in_elem [of n k base] by (simp add: step)
  next
    case False
    with Suc.prems have "nat n = Suc k" by simp
    then show ?thesis
      using False Suc.prems n next_in_elem [of n k base] by (simp add: step nil)
  qed
qed

lemma traversal_all:
  assumes eq: "\<And>p. F p =
      (if p = NULL then Inr []
       else (case next_in base n p of
               Inl e \<Rightarrow> Inl e
             | Inr q \<Rightarrow> (case F q of Inl e \<Rightarrow> Inl e | Inr ps \<Rightarrow> Inr (p # ps))))"
    and n: "n \<le> INT_MAX"
  shows "(case next_in base n NULL of Inl e \<Rightarrow> Inl e | Inr p \<Rightarrow> F p) =
           Inr (map (Ptr base) [0..<nat n])"
proof (cases "0 < n")
  case True
  then show ?thesis
    using traversal_from_elem [of F base n 0, OF eq n] by (simp add: next_in_NULL)
next
  case False
  have "F NULL = Inr []" by (subst eq) simp
  with False show ?thesis by (simp add: next_in_NULL)
qed

lemma for_each_connector_all:
  "int (n_connectors d) \<le> INT_MAX \<Longrightarrow>
     for_each_connector_in_drmdev d = Inr (map (Ptr (connectors d)) [0..<n_connectors d])"
  using traversal_all [of "for_each_connector_from d" "connectors d" "int (n_connectors d)"]
  by (simp add: for_each_connector_in_drmdev_def next_connector_def for_each_connector_from.simps [of d])

lemma next_connector_steps:
  "int (n_connectors d) \<le> INT_MAX \<Longrightarrow>
     next_connector d NULL = Inr (if 0 < int (n_connectors d) then Ptr (connectors d) 0 else NULL) \<and>
     (\<forall>k. int k < int (n_connectors d) \<longrightarrow>
        next_connector d (Ptr (connectors d) k) =
          Inr (if int (Suc k) < int (n_connectors d) then Ptr (connectors d) (Suc k) else NULL))"
  by (simp add: next_connector_def next_in_NULL next_in_elem)

lemma for_each_encoder_all:
  "int (n_encoders d) \<le> INT_MAX \<Longrightarrow>
     for_each_encoder_in_drmdev d = Inr (map (Ptr (encoders d)) [0..<n_encoders d])"
  using traversal_all [of "for_each_encoder_from d" "encoders d" "int (n_encoders d)"]
  by (simp add: for_each_encoder_in_drmdev_def next_encoder_def for_each_encoder_from.simps [of d])

lemma next_encoder_steps:
  "int (n_encoders d) \<le> INT_MAX \<Longrightarrow>
     next_encoder d NULL = Inr (if 0 < int (n_encoders d) then Ptr (encoders d) 0 else NULL) \<and>
     (\<forall>k. int k < int (n_encoders d) \<longrightarrow>
        next_encoder d (Ptr (encoders d) k) =
          Inr (if int (Suc k) < int (n_encoders d) then Ptr (encoders d) (Suc k) else NULL))"
  by (simp add: next_encoder_def next_in_NULL next_in_elem)

lemma for_each_crtc_all:
  "n_crtcs d \<le> INT_MAX \<Longrightarrow>
     for_each_crtc_in_drmdev d = Inr (map (Ptr (crtcs d)) [0..<nat (n_crtcs d)])"
  using traversal_all [of "for_each_crtc_from d" "crtcs d" "n_crtcs d"]
  by (simp add: for_each_crtc_in_drmdev_def next_crtc_def for_each_crtc_from.simps [of d])

lemma next_crtc_steps:
  "n_crtcs d \<le> INT_MAX \<Longrightarrow>
     next_crtc d NULL = Inr (if 0 < n_crtcs d then Ptr (crtcs d) 0 else NULL) \<and>
     (\<forall>k. int k < n_crtcs d \<longrightarrow>
        next_crtc d (Ptr (crtcs d) k) =
          Inr (if int (Suc k) < n_crtcs d then Ptr (crtcs d) (Suc k) else NULL))"
  by (simp add: next_crtc_def next_in_NULL next_in_elem)

lemma for_each_plane_all:
  "n_planes d \<le> INT_MAX \<Longrightarrow>
     for_each_plane_in_drmdev d = Inr (map (Ptr (planes d)) [0..<nat (n_planes d)])"
  using traversal_all [of "for_each_plane_from d" "planes d" "n_planes d"]
  by (simp add: for_each_plane_in_drmdev_def next_plane_def for_each_plane_from.simps [of d])

lemma next_plane_steps:
  "n_planes d \<le> INT_MAX \<Longrightarrow>
     next_plane d NULL = Inr (if 0 < n_planes d then Ptr (planes d) 0 else NULL) \<and>
     (\<forall>k. int k < n_planes d \<longrightarrow>
        next_plane d (Ptr (planes d) k) =
          Inr (if int (Suc k) < n_planes d then Ptr (planes d) (Suc k) else NULL))"
  by (simp add: next_plane_def next_in_NULL next_in_elem)

lemma for_each_mode_all:
  "count_modes (connector c) \<le> INT_MAX \<Longrightarrow>
     for_each_mode_in_connector c = Inr (map (Ptr (modes (connector c))) [0..<nat (count_modes (connector c))])"
  using traversal_all [of "for_each_mode_from c" "modes (connector c)" "count_modes (connector c)"]
  by (simp add: for_each_mode_in_connector_def next_mode_def for_each_mode_from.simps [of c])

lemma next_mode_steps:
  "count_modes (connector c) \<le> INT_MAX \<Longrightarrow>
     next_mode c NULL = Inr (if 0 < count_modes (connector c) then Ptr (modes (connector c)) 0 else NULL) \<and>
     (\<forall>k. int k < count_modes (connector c) \<longrightarrow>
        next_mode c (Ptr (modes (connector c)) k) =
          Inr (if int (Suc k) < count_modes (connector c) then Ptr (modes (connector c)) (Suc k) else NULL))"
  by (simp add: next_mode_def next_in_NULL next_in_elem)

text \<open>
  Claim C6: for a device whose resource arrays (connectors, encoders, crtcs, planes) and a
  connector whose mode list have \<open>n\<close> elements, the traversal by the \<open>__next_*\<close> functions
  from \<open>NULL\<close> visits exactly the \<open>n\<close> elements \<open>base + 0\<close>, ..., \<open>base + (n - 1)\<close> in array
  order, each once, and then gets \<open>NULL\<close>: each of the five functions returns the first
  element for \<open>NULL\<close>, the following element for an element, and \<open>NULL\<close> for the last one, and
  each of the five \<open>for_each\<close> loops runs its body with the elements in array order. The
  functions read the device and keep no state, so a traversal started again from \<open>NULL\<close>
  visits the same elements. The counts are within the range of the \<open>int\<close> loop counter; a
  negative \<open>int\<close> count is an empty array.
\<close>

theorem next_traversal_in_array_order:
  assumes "int (n_connectors d) \<le> INT_MAX" and "int (n_encoders d) \<le> INT_MAX"
    and "n_crtcs d \<le> INT_MAX" and "n_planes d \<le> INT_MAX"
    and "count_modes (connector c) \<le> INT_MAX"
  shows "for_each_connector_in_drmdev d = Inr (map (Ptr (connectors d)) [0..<n_connectors d]) \<and>
         for_each_encoder_in_drmdev d = Inr (map (Ptr (encoders d)) [0..<n_encoders d]) \<and>
         for_each_crtc_in_drmdev d = Inr (map (Ptr (crtcs d)) [0..<nat (n_crtcs d)]) \<and>
         for_each_plane_in_drmdev d = Inr (map (Ptr (planes d)) [0..<nat (n_planes d)]) \<and>
         for_each_mode_in_connector c =
           Inr (map (Ptr (modes (connector c))) [0..<nat (count_modes (connector c))]) \<and>
         next_connector d NULL =
           Inr (if 0 < n_connectors d then Ptr (connectors d) 0 else NULL) \<and>
         (\<forall>k < n_connectors d. next_connector d (Ptr (connectors d) k) =
           Inr (if Suc k < n_connectors d then Ptr (connectors d) (Suc k) else NULL)) \<and>
         next_mode c NULL =
           Inr (if 0 < count_modes (connector c) then Ptr (modes (connector c)) 0 else NULL) \<and>
         (\<forall>k. int k < count_modes (connector c) \<longrightarrow> next_mode c (Ptr (modes (connector c)) k) =
           Inr (if int (Suc k) < count_modes (connector c) then Ptr (modes (connector c)) (Suc k)
                else NULL)) \<and>
         next_encoder d NULL =
           Inr (if 0 < n_encoders d then Ptr (encoders d) 0 else NULL) \<and>
         (\<forall>k < n_encoders d. next_encoder d (Ptr (encoders d) k) =
           Inr (if Suc k < n_encoders d then Ptr (encoders d) (Suc k) else NULL)) \<and>
         next_crtc d NULL =
           Inr (if 0 < n_crtcs d then Ptr (crtcs d) 0 else NULL) \<and>
         (\<forall>k. int k < n_crtcs d \<longrightarrow> next_crtc d (Ptr (crtcs d) k) =
           Inr (if int (Suc k) < n_crtcs d then Ptr (crtcs d) (Suc k) else NULL)) \<and>
         next_plane d NULL =
           Inr (if 0 < n_planes d then Ptr (planes d) 0 else NULL) \<and>
         (\<forall>k. int k < n_planes d \<longrightarrow> next_plane d (Ptr (planes d) k) =
           Inr (if int (Suc k) < n_planes d then Ptr (planes d) (Suc k) else NULL))"
proof -
  note co = next_connector_steps [OF assms(1)]
  note en = next_encoder_steps [OF assms(2)]
  note cr = next_crtc_steps [OF assms(3)]
  note pl = next_plane_steps [OF assms(4)]
  note mo = next_mode_steps [OF assms(5)]
  have 1: "next_connector d NULL =
      Inr (if 0 < n_connectors d then Ptr (connectors d) 0 else NULL)"
    using co by simp
  have 2: "\<forall>k < n_connectors d. next_connector d (Ptr (connectors d) k) =
      Inr (if Suc k < n_connectors d then Ptr (connectors d) (Suc k) else NULL)"
    using co by simp
  have 3: "next_encoder d NULL = Inr (if 0 < n_encoders d then Ptr (encoders d) 0 else NULL)"
    using en by simp
  have 4: "\<forall>k < n_encoders d. next_encoder d (Ptr (encoders d) k) =
      Inr (if Suc k < n_encoders d then Ptr (encoders d) (Suc k) else NULL)"
    using en by simp
  from for_each_connector_all [OF assms(1)] for_each_encoder_all [OF assms(2)]
    for_each_crtc_all [OF assms(3)] for_each_plane_all [OF assms(4)]
    for_each_mode_all [OF assms(5)] 1 2 3 4 cr pl mo
  show ?thesis by (intro conjI) (erule conjunct1 conjunct2 | assumption)+
qed

theorem next_traversal_in_array_order_witness:
  "for_each_connector_in_drmdev
     \<lparr>n_connectors = 2, connectors = 1, n_encoders = 1, encoders = 2,
      n_crtcs = 3, crtcs = 3, n_planes = - 1, planes = 4\<rparr> = Inr [Ptr 1 0, Ptr 1 1] \<and>
   for_each_encoder_in_drmdev
     \<lparr>n_connectors = 2, connectors = 1, n_encoders = 1, encoders = 2,
      n_crtcs = 3, crtcs = 3, n_planes = - 1, planes = 4\<rparr> = Inr [Ptr 2 0] \<and>
   for_each_crtc_in_drmdev
     \<lparr>n_connectors = 2, connectors = 1, n_encoders = 1, encoders = 2,
      n_crtcs = 3, crtcs = 3, n_planes = - 1, planes = 4\<rparr> = Inr [Ptr 3 0, Ptr 3 1, Ptr 3 2] \<and>
   for_each_plane_in_drmdev
     \<lparr>n_connectors = 2, connectors = 1, n_encoders = 1, encoders = 2,
      n_crtcs = 3, crtcs = 3, n_planes = - 1, planes = 4\<rparr> = Inr [] \<and>
   for_each_mode_in_connector
     \<lparr>connector = \<lparr>connector_id = 7, count_modes = 2, modes = 5\<rparr>, props_info = []\<rparr> =
       Inr [Ptr 5 0, Ptr 5 1] \<and>
   next_connector
     \<lparr>n_connectors = 2, connectors = 1, n_encoders = 1, encoders = 2,
      n_crtcs = 3, crtcs = 3, n_planes = - 1, planes = 4\<rparr> NULL = Inr (Ptr 1 0) \<and>
   next_connector
     \<lparr>n_connectors = 2, connectors = 1, n_encoders = 1, encoders = 2,
      n_crtcs = 3, crtcs = 3, n_planes = - 1, planes = 4\<rparr> (Ptr 1 1) = Inr NULL \<and>
   next_encoder
     \<lparr>n_connectors = 2, connectors = 1, n_encoders = 1, encoders = 2,
      n_crtcs = 3, crtcs = 3, n_planes = - 1, planes = 4\<rparr> NULL = Inr (Ptr 2 0) \<and>
   next_encoder
     \<lparr>n_connectors = 2, connectors = 1, n_encoders = 1, encoders = 2,
      n_crtcs = 3, crtcs = 3, n_planes = - 1, planes = 4\<rparr> (Ptr 2 0) = Inr NULL \<and>
   next_crtc
     \<lparr>n_connectors = 2, connectors = 1, n_encoders = 1, encoders = 2,
      n_crtcs = 3, crtcs = 3, n_planes = - 1, planes = 4\<rparr> (Ptr 3 1) = Inr (Ptr 3 2) \<and>
   next_crtc
     \<lparr>n_connectors = 2, connectors = 1, n_encoders = 1, encoders = 2,
      n_crtcs = 3, crtcs = 3, n_planes = - 1, planes = 4\<rparr> (Ptr 3 2) = Inr NULL \<and>
   next_plane
     \<lparr>n_connectors = 2, connectors = 1, n_encoders = 1, encoders = 2,
      n_crtcs = 3, crtcs = 3, n_planes = - 1, planes = 4\<rparr> NULL = Inr NULL \<and>
   next_mode
     \<lparr>connector = \<lparr>connector_id = 7, count_modes = 2, modes = 5\<rparr>, props_info = []\<rparr> (Ptr 5 0) =
       Inr (Ptr 5 1)"
  using next_traversal_in_array_order
    [of "\<lparr>n_connectors = 2, connectors = 1, n_encoders = 1, encoders = 2,
      n_crtcs = 3, crtcs = 3, n_planes = - 1, planes = 4\<rparr>"
        "\<lparr>connector = \<lparr>connector_id = 7, count_modes = 2, modes = 5\<rparr>, props_info = []\<rparr>"]
  by (simp add: INT_MAX_def upt_conv_Cons)

section \<open>Properties of memdup\<close>

lemma load_length: "valid_range m p n \<Longrightarrow> length (load m p n) = n"
  by (auto simp: valid_range_def load_def split: ptr.splits)

lemma memcpy_fresh_block:
  assumes "valid_range m src n"
  shows "memcpy (m @ [blk]) (Ptr (length m) 0) src n =
           (if length blk < n then Inl InvalidAccess
            else Inr (m @ [load m src n @ drop n blk], Ptr (length m) 0))"
proof -
  from assms obtain b k where src: "src = Ptr b k" and b: "b < length m" and k: "k + n \<le> length (m ! b)"
    by (auto simp: valid_range_def split: ptr.splits)
  have v: "valid_range (m @ [blk]) src n"
    using b k by (simp add: valid_range_def src nth_append)
  have ld: "load (m @ [blk]) src n = load m src n"
    using b by (simp add: load_def src nth_append)
  have no: "\<not> overlap (Ptr (length m) 0) src n"
    using b by (simp add: overlap_def src)
  show ?thesis
    using v ld no by (simp add: memcpy_def valid_range_def)
qed


text \<open>
  Claim C9: \<open>memdup(src, n)\<close> returns \<open>NULL\<close>, allocating nothing, when \<open>src\<close> is \<open>NULL\<close> or
  \<open>n\<close> is 0, and also when the allocation fails; otherwise, for a source of \<open>n\<close> readable
  bytes, it returns the start of a new block whose first \<open>n\<close> bytes are the first \<open>n\<close> bytes
  of \<open>src\<close>, and leaves the memory it found unchanged. The definitions of flutter-pi.h and
  of collection.h compute the same function.
\<close>

theorem memdup_copies:
  "(src = NULL \<or> n = 0 \<longrightarrow> memdup avail junk m src n = Inr (m, NULL)) \<and>
   (\<not> avail \<longrightarrow> memdup avail junk m src n = Inr (m, NULL)) \<and>
   (src \<noteq> NULL \<and> n \<noteq> 0 \<and> avail \<and> valid_range m src n \<longrightarrow>
      (\<exists>m'. memdup avail junk m src n = Inr (m', Ptr (length m) 0) \<and>
            valid_range m' (Ptr (length m) 0) n \<and>
            load m' (Ptr (length m) 0) n = load m src n \<and>
            length (load m src n) = n \<and>
            take (length m) m' = m)) \<and>
   memdup_collection avail junk m src n = memdup avail junk m src n"
proof (intro conjI impI)
  assume "src = NULL \<or> n = 0"
  then show "memdup avail junk m src n = Inr (m, NULL)" by (auto simp: memdup_def)
next
  assume "\<not> avail"
  then show "memdup avail junk m src n = Inr (m, NULL)" by (simp add: memdup_def malloc_def)
next
  assume a: "src \<noteq> NULL \<and> n \<noteq> 0 \<and> avail \<and> valid_range m src n"
  then have v: "valid_range m src n" by simp
  let ?m' = "m @ [load m src n @ drop n (map junk [0..<n])]"
  have "memdup avail junk m src n = Inr (?m', Ptr (length m) 0)"
    using a memcpy_fresh_block [OF v, of "map junk [0..<n]"] by (simp add: memdup_def malloc_def)
  moreover have "valid_range ?m' (Ptr (length m) 0) n"
    using load_length [OF v] by (simp add: valid_range_def)
  moreover have "load ?m' (Ptr (length m) 0) n = load m src n"
    using load_length [OF v] by (simp add: load_def)
  ultimately show "\<exists>m'. memdup avail junk m src n = Inr (m', Ptr (length m) 0) \<and>
            valid_range m' (Ptr (length m) 0) n \<and>
            load m' (Ptr (length m) 0) n = load m src n \<and>
            length (load m src n) = n \<and>
            take (length m) m' = m"
    using load_length [OF v] by (intro exI [of _ ?m']) simp
next
  show "memdup_collection avail junk m src n = memdup avail junk m src n"
    by (simp add: memdup_collection_def memdup_def)
qed

theorem memdup_copies_witness:
  "memdup True (\<lambda>i. 0) [[1, 2, 3]] NULL 2 = Inr ([[1, 2, 3]], NULL) \<and>
   memdup True (\<lambda>i. 0) [[1, 2, 3]] (Ptr 0 1) 0 = Inr ([[1, 2, 3]], NULL) \<and>
   memdup False (\<lambda>i. 0) [[1, 2, 3]] (Ptr 0 1) 2 = Inr ([[1, 2, 3]], NULL) \<and>
   valid_range [[1, 2, 3]] (Ptr 0 1) 2 \<and>
   memdup True (\<lambda>i. 0) [[1, 2, 3]] (Ptr 0 1) 2 = Inr ([[1, 2, 3], [2, 3]], Ptr 1 0) \<and>
   load [[1, 2, 3], [2, 3]] (Ptr 1 0) 2 = load [[1, 2, 3]] (Ptr 0 1) 2 \<and>
   memdup_collection True (\<lambda>i. 0) [[1, 2, 3]] (Ptr 0 1) 2 = Inr ([[1, 2, 3], [2, 3]], Ptr 1 0)"
  using memdup_copies [of NULL 2 True "\<lambda>i. 0" "[[1, 2, 3]]"]
    memdup_copies [of "Ptr 0 1" 0 True "\<lambda>i. 0" "[[1, 2, 3]]"]
    memdup_copies [of "Ptr 0 1" 2 False "\<lambda>i. 0" "[[1, 2, 3]]"]
    memdup_copies [of "Ptr 0 1" 2 True "\<lambda>i. 0" "[[1, 2, 3]]"]
  by (simp add: valid_range_def load_def memdup_def malloc_def memcpy_def overlap_def)


section \<open>Properties of the task type\<close>

text \<open>
  Claim C8: the discriminator of a task ranges over exactly ten kinds, which are, one for
  one, the kinds the specification lists (vblank-request, vblank-reply, orientation-update,
  outgoing-platform-message, message-response, generic callback, external-texture
  register, unregister and frame-available, and the engine's deferred unit of work). The
  target time is a field of the task beside the discriminator and the union, so a task of
  every kind and payload has one; the union has a member that holds a timestamp together
  with a baton, which a vblank-reply task carries.
\<close>

theorem task_type_kinds:
  "bij spec_kind_of \<and>
   (UNIV :: flutterpi_task_type set) =
     {kVBlankRequest, kVBlankReply, kUpdateOrientation, kSendPlatformMessage,
      kRespondToPlatformMessage, kFlutterTask, kRegisterExternalTexture,
      kUnregisterExternalTexture, kMarkExternalTextureFrameAvailable, kGeneric} \<and>
   distinct [kVBlankRequest, kVBlankReply, kUpdateOrientation, kSendPlatformMessage,
      kRespondToPlatformMessage, kFlutterTask, kRegisterExternalTexture,
      kUnregisterExternalTexture, kMarkExternalTextureFrameAvailable, kGeneric] \<and>
   (\<forall>t k. target_time (t\<lparr>type := k\<rparr>) = target_time t) \<and>
   (\<forall>t u. target_time (t\<lparr>payload := u\<rparr>) = target_time t) \<and>
   (\<forall>nx k u tt. target_time \<lparr>next = nx, type = k, payload = u, target_time = tt\<rparr> = tt) \<and>
   (\<forall>nx ns b tt.
      vblank_ns (payload \<lparr>next = nx, type = kVBlankReply, payload = VBlank ns b, target_time = tt\<rparr>) = ns \<and>
      baton (payload \<lparr>next = nx, type = kVBlankReply, payload = VBlank ns b, target_time = tt\<rparr>) = b)"
proof -
  have univ: "(UNIV :: flutterpi_task_type set) =
     {kVBlankRequest, kVBlankReply, kUpdateOrientation, kSendPlatformMessage,
      kRespondToPlatformMessage, kFlutterTask, kRegisterExternalTexture,
      kUnregisterExternalTexture, kMarkExternalTextureFrameAvailable, kGeneric}"
  proof (intro set_eqI iffI)
    fix x :: flutterpi_task_type
    show "x \<in> {kVBlankRequest, kVBlankReply, kUpdateOrientation, kSendPlatformMessage,
      kRespondToPlatformMessage, kFlutterTask, kRegisterExternalTexture,
      kUnregisterExternalTexture, kMarkExternalTextureFrameAvailable, kGeneric}"
      by (cases x) simp_all
  qed simp
  have inj: "inj spec_kind_of"
  proof (rule injI)
    fix x y assume "spec_kind_of x = spec_kind_of y"
    then show "x = y" by (cases x; cases y) simp_all
  qed
  have surj: "surj spec_kind_of"
  proof (rule surjI)
    fix k
    show "spec_kind_of (case k of vblank_request \<Rightarrow> kVBlankRequest
        | vblank_reply \<Rightarrow> kVBlankReply
        | orientation_update \<Rightarrow> kUpdateOrientation
        | outgoing_platform_message \<Rightarrow> kSendPlatformMessage
        | message_response \<Rightarrow> kRespondToPlatformMessage
        | generic_callback \<Rightarrow> kGeneric
        | external_texture_register \<Rightarrow> kRegisterExternalTexture
        | external_texture_unregister \<Rightarrow> kUnregisterExternalTexture
        | external_texture_frame_available \<Rightarrow> kMarkExternalTextureFrameAvailable
        | engine_deferred_work \<Rightarrow> kFlutterTask) = k"
      by (cases k) simp_all
  qed
  from inj surj have "bij spec_kind_of" by (simp add: bij_def)
  with univ show ?thesis by simp
qed


section \<open>Properties of the task queue\<close>

lemma take_earliest_None: "take_earliest q = None \<longleftrightarrow> q = []"
  by (cases q) (auto split: option.splits)

lemma take_earliest_Some:
  "take_earliest q = Some (m, rest) \<Longrightarrow>
     \<exists>xs ys. q = xs @ m # ys \<and> rest = xs @ ys \<and>
       (\<forall>x \<in> set xs. target_time m < target_time x) \<and>
       (\<forall>y \<in> set ys. target_time m \<le> target_time y)"
proof (induction q arbitrary: m rest)
  case Nil
  then show ?case by simp
next
  case (Cons t ts)
  show ?case
  proof (cases "take_earliest ts")
    case None
    then have "ts = []" by (simp add: take_earliest_None)
    with Cons.prems show ?thesis by simp
  next
    case (Some r)
    obtain m' rest' where r: "r = (m', rest')" by (cases r)
    from Cons.IH [of m' rest'] Some r obtain xs ys where
      ts: "ts = xs @ m' # ys" and rest': "rest' = xs @ ys"
      and xs: "\<forall>x \<in> set xs. target_time m' < target_time x"
      and ys: "\<forall>y \<in> set ys. target_time m' \<le> target_time y"
      by blast
    show ?thesis
    proof (cases "target_time t \<le> target_time m'")
      case True
      with Cons.prems Some r have "m = t" "rest = ts" by simp_all
      moreover have "\<forall>y \<in> set ts. target_time t \<le> target_time y"
        using True ts xs ys by (auto intro: order_trans less_imp_le)
      ultimately show ?thesis by (intro exI [of _ "[]"] exI [of _ ts]) simp
    next
      case False
      with Cons.prems Some r have "m = m'" "rest = t # rest'" by simp_all
      then show ?thesis
        using False ts rest' xs ys by (intro exI [of _ "t # xs"] exI [of _ ys]) auto
    qed
  qed
qed

lemma drain_Nil: "drain [] = []"
  by (simp add: drain.simps [of "[]"] wait_and_take_next_def)

lemma drain_Some: "take_earliest q = Some (m, rest) \<Longrightarrow> drain q = m # drain rest"
  by (simp add: drain.simps [of q] wait_and_take_next_def)

lemma mset_drain: "mset (drain q) = mset q"
proof (induction q rule: drain.induct)
  case (1 q)
  show ?case
  proof (cases "take_earliest q")
    case None
    then show ?thesis
      by (simp add: take_earliest_None drain_Nil)
  next
    case (Some r)
    obtain m rest where r: "r = (m, rest)" by (cases r)
    from take_earliest_Some [of q m rest] Some r obtain xs ys where
      "q = xs @ m # ys" "rest = xs @ ys" by blast
    moreover have "mset (drain rest) = mset rest"
      using Some r by (intro "1.IH" [of "(m, rest)" m rest]) (simp_all add: wait_and_take_next_def)
    moreover have "drain q = m # drain rest"
      using Some r by (simp add: drain_Some)
    ultimately show ?thesis by simp
  qed
qed

lemma sorted_drain: "sorted (map target_time (drain q))"
proof (induction q rule: drain.induct)
  case (1 q)
  show ?case
  proof (cases "take_earliest q")
    case None
    then show ?thesis by (simp add: take_earliest_None drain_Nil)
  next
    case (Some r)
    obtain m rest where r: "r = (m, rest)" by (cases r)
    from take_earliest_Some [of q m rest] Some r obtain xs ys where
      "rest = xs @ ys"
      "\<forall>x \<in> set xs. target_time m < target_time x"
      "\<forall>y \<in> set ys. target_time m \<le> target_time y" by blast
    then have "\<forall>x \<in> set rest. target_time m \<le> target_time x"
      by (auto intro: less_imp_le)
    moreover have "set (drain rest) = set rest"
      using mset_drain [of rest] by (rule mset_eq_setD)
    moreover have "sorted (map target_time (drain rest))"
      using Some r by (intro "1.IH" [of "(m, rest)" m rest]) (simp_all add: wait_and_take_next_def)
    moreover have "drain q = m # drain rest"
      using Some r by (simp add: drain_Some)
    ultimately show ?thesis by simp
  qed
qed

lemma filter_drain:
  "filter (\<lambda>t. target_time t = k) (drain q) = filter (\<lambda>t. target_time t = k) q"
proof (induction q rule: drain.induct)
  case (1 q)
  show ?case
  proof (cases "take_earliest q")
    case None
    then show ?thesis
      by (simp add: take_earliest_None drain_Nil)
  next
    case (Some r)
    obtain m rest where r: "r = (m, rest)" by (cases r)
    from take_earliest_Some [of q m rest] Some r obtain xs ys where
      q: "q = xs @ m # ys" and rest: "rest = xs @ ys"
      and xs: "\<forall>x \<in> set xs. target_time m < target_time x" by blast
    have ih: "filter (\<lambda>t. target_time t = k) (drain rest) = filter (\<lambda>t. target_time t = k) rest"
      using Some r by (intro "1.IH" [of "(m, rest)" m rest]) (simp_all add: wait_and_take_next_def)
    have dr: "drain q = m # drain rest"
      using Some r by (simp add: drain_Some)
    have lhs: "filter (\<lambda>t. target_time t = k) (drain q) =
        (if target_time m = k then [m] else []) @ filter (\<lambda>t. target_time t = k) rest"
      unfolding dr by (simp add: ih)
    have "filter (\<lambda>t. target_time t = k) xs = []" if "target_time m = k"
      using xs that by (auto simp: filter_empty_conv)
    then have rhs: "filter (\<lambda>t. target_time t = k) q =
        (if target_time m = k then [m] else []) @ filter (\<lambda>t. target_time t = k) rest"
      by (simp add: q rest)
    show ?thesis by (simp only: lhs rhs)
  qed
qed

lemma foldl_submit: "foldl submit q calls = q @ map posted calls"
proof (induction calls arbitrary: q)
  case Nil
  then show ?case by simp
next
  case (Cons c calls)
  then show ?case by (cases c) (simp_all add: post_def post_delayed_def)
qed


text \<open>
  Claim C2: for every finite sequence of \<open>post\<close> and \<open>post_delayed\<close> calls, the consumer's
  \<open>wait_and_take_next\<close> returns the posted tasks in non-decreasing order of target time, and
  tasks of equal target time in the order of their submission. Every posted task is
  returned once: the tasks returned are the posted ones, stably sorted by target time.
\<close>

theorem tasks_delivered_in_target_time_order:
  "sorted (map target_time (drain (foldl submit [] calls))) \<and>
   (\<forall>k. filter (\<lambda>t. target_time t = k) (drain (foldl submit [] calls)) =
        filter (\<lambda>t. target_time t = k) (map posted calls)) \<and>
   mset (drain (foldl submit [] calls)) = mset (map posted calls) \<and>
   drain (foldl submit [] calls) = sort_key target_time (map posted calls)"
proof -
  let ?q = "map posted calls"
  have q: "foldl submit [] calls = ?q" by (simp add: foldl_submit)
  have flip: "(\<lambda>x. c = target_time x) = (\<lambda>x. target_time x = c)" for c :: "64 word"
    by auto
  have "sort_key target_time ?q = drain ?q"
    by (rule properties_for_sort_key) (simp_all add: mset_drain sorted_drain filter_drain flip)
  then show ?thesis
    by (simp add: q mset_drain sorted_drain filter_drain)
qed

section \<open>Properties of the framebuffer cache\<close>

text \<open>
  Claim C4: two lookups of the same buffer return the same result, the same framebuffer id
  when the first one succeeds; the second lookup leaves cache and kernel as the first one
  left them (it is a cache hit when the first one succeeded), and both together create at
  most one kernel framebuffer object.
\<close>

theorem framebuffer_lookup_twice:
  "(let (s1, r1) = drm_fb_get_from_bo s b;
        (s2, r2) = drm_fb_get_from_bo s1 b
    in r2 = r1 \<and> s2 = s1 \<and>
       length (framebuffers (kern s2)) \<le> Suc (length (framebuffers (kern s))) \<and>
       (case r1 of
          Inl e \<Rightarrow> framebuffers (kern s2) = framebuffers (kern s)
        | Inr fb \<Rightarrow> cache s1 (bo_ptr b) = Some fb))"
  by (auto simp: drm_fb_get_from_bo_def add_framebuffer_def Let_def
           split: option.splits sum.splits prod.splits if_splits)

end
